theory Spec2Isabelle
  imports Main
begin

section \<open>Values of the import script\<close>

text \<open>
  The script \<^verbatim>\<open>example/import.py\<close> builds two import specifications out of a few
  helper callables, runs them one after the other and writes the SQL text.  Python
  exceptions are values of the type \<open>error\<close>; a computation that may raise returns
  \<open>error + 'a\<close> with \<open>Inl\<close> for the exception.
\<close>

datatype error =
    KeyError string
  | StopIteration
  | IndexError
  | ValueError
  | UnresolvableReference string string

type_synonym row = "(string \<times> string) list"

text \<open>\<^verbatim>\<open>row[key]\<close>: the value stored under the key, \<^verbatim>\<open>KeyError\<close> when it is absent.\<close>

definition getitem :: "row \<Rightarrow> string \<Rightarrow> error + string" where
  "getitem r k = (case map_of r k of None \<Rightarrow> Inl (KeyError k) | Some v \<Rightarrow> Inr v)"

subsection \<open>\<^verbatim>\<open>str\<close> of an integer\<close>

definition digit_char :: "nat \<Rightarrow> char" where
  "digit_char d = ''0123456789'' ! d"

function str_nat :: "nat \<Rightarrow> string" where
  "str_nat n = (if n < 10 then [digit_char n] else str_nat (n div 10) @ [digit_char (n mod 10)])"
  by pat_completeness auto
termination
  by (relation "measure id") auto

declare str_nat.simps [simp del]

definition str_int :: "int \<Rightarrow> string" where
  "str_int i = (if i < 0 then CHR ''-'' # str_nat (nat (- i)) else str_nat (nat i))"

subsection \<open>\<^verbatim>\<open>str.format\<close> with automatically numbered fields\<close>

text \<open>
  The two templates of the script, \<^verbatim>\<open>'{}'\<close> and \<^verbatim>\<open>'{} {}'\<close>, use literal text and the
  field \<^verbatim>\<open>{}\<close> only.  \<open>format_py\<close> copies literal text, replaces each \<^verbatim>\<open>{}\<close> by
  the next positional argument (\<^verbatim>\<open>IndexError\<close> when none is left) and reads the doubled
  braces as one brace.  Named and numbered fields, which the script does not use, are not
  part of this fragment: any other use of a brace ends in \<^verbatim>\<open>ValueError\<close>, as a lone
  brace does in Python.  The arguments are strings and are inserted unchanged; surplus
  arguments are ignored.
\<close>

fun format_py :: "string \<Rightarrow> string list \<Rightarrow> error + string" where
  "format_py [] args = Inr []"
| "format_py (c # cs) args =
     (if c = CHR ''{'' then
        (case cs of
           [] \<Rightarrow> Inl ValueError
         | d # rest \<Rightarrow>
             if d = CHR ''}'' then
               (case args of
                  [] \<Rightarrow> Inl IndexError
                | a # as \<Rightarrow> map_sum id ((@) a) (format_py rest as))
             else if d = CHR ''{'' then map_sum id ((#) c) (format_py rest args)
             else Inl ValueError)
      else if c = CHR ''}'' then
        (case cs of
           [] \<Rightarrow> Inl ValueError
         | d # rest \<Rightarrow>
             if d = CHR ''}'' then map_sum id ((#) c) (format_py rest args)
             else Inl ValueError)
      else map_sum id ((#) c) (format_py cs args))"

subsection \<open>Output records and the global state\<close>

text \<open>
  Modelled from the spec: the record class of the module \<^verbatim>\<open>csv2db\<close> (the output record of
  section 3, \<^verbatim>\<open>DbRecord\<close> in the script's comments).  The script reads its
  \<^verbatim>\<open>table_name\<close>, its \<^verbatim>\<open>attributes\<close> dictionary and its \<^verbatim>\<open>row_id\<close>.
\<close>

record OutputRecord =
  table_name :: string
  attributes :: "(string \<times> string) list"
  row_id :: "string option"

text \<open>\<^verbatim>\<open>class OidFactory\<close>: one counter per instance, \<open>0\<close> after \<^verbatim>\<open>__init__\<close>.\<close>

record OidFactory =
  oid :: int

definition OidFactory_init :: OidFactory where
  "OidFactory_init = \<lparr>oid = 0\<rparr>"

text \<open>\<^verbatim>\<open>__call__(self, row)\<close>: increments the counter and returns its decimal text.\<close>

definition OidFactory_call :: "OidFactory \<Rightarrow> row \<Rightarrow> string \<times> OidFactory" where
  "OidFactory_call self r = (let self' = self\<lparr>oid := oid self + 1\<rparr> in (str_int (oid self'), self'))"

text \<open>Calling one instance once per element of a list of rows, in order.\<close>

fun OidFactory_calls :: "OidFactory \<Rightarrow> row list \<Rightarrow> string list \<times> OidFactory" where
  "OidFactory_calls self [] = ([], self)"
| "OidFactory_calls self (r # rs) =
     (case OidFactory_call self r of
        (v, self') \<Rightarrow> (case OidFactory_calls self' rs of (vs, self'') \<Rightarrow> (v # vs, self'')))"

text \<open>
  The mutable state of the module: the global list \<^verbatim>\<open>departments\<close> and the
  \<^verbatim>\<open>OidFactory\<close> instances, addressed by the order in which the module creates them.
\<close>

record store =
  departments :: "OutputRecord list"
  factories :: "nat \<Rightarrow> OidFactory"

definition init_store :: store where
  "init_store = \<lparr>departments = [], factories = (\<lambda>_. OidFactory_init)\<rparr>"

subsection \<open>Helper functions of the script\<close>

definition quote :: "string \<Rightarrow> error + string" where
  "quote v = format_py [CHR 0x27, CHR ''{'', CHR ''}'', CHR 0x27] [v]"

definition make_name :: "row \<Rightarrow> error + string" where
  "make_name values =
     (case getitem values ''First'' of
        Inl e \<Rightarrow> Inl e
      | Inr f \<Rightarrow>
          (case getitem values ''Last'' of
             Inl e \<Rightarrow> Inl e
           | Inr l \<Rightarrow>
               format_py [CHR 0x27, CHR ''{'', CHR ''}'', CHR '' '', CHR ''{'', CHR ''}'', CHR 0x27] [f, l]))"

text \<open>
  \<^verbatim>\<open>next(d.attributes['_oid'] for d in departments if d.row_id == name)\<close>: the
  generator skips the records whose \<^verbatim>\<open>row_id\<close> differs, evaluates the attribute of the
  first one that matches, and \<^verbatim>\<open>next\<close> raises \<^verbatim>\<open>StopIteration\<close> when it is exhausted.
\<close>

fun department_oid :: "OutputRecord list \<Rightarrow> string \<Rightarrow> error + string" where
  "department_oid [] name = Inl StopIteration"
| "department_oid (d # ds) name =
     (if row_id d = Some name then getitem (attributes d) ''_oid'' else department_oid ds name)"

definition has_phone :: "row \<Rightarrow> error + bool" where
  "has_phone r = (case getitem r ''Phone'' of Inl e \<Rightarrow> Inl e | Inr p \<Rightarrow> Inr (if p \<noteq> ''-'' then True else False))"

subsection \<open>Calls of the callables in the module state\<close>

text \<open>
  A call of a callable of the module runs in the state of the module: it takes the state
  before the call and gives the result together with the state after the call.  The
  body of \<^verbatim>\<open>quote\<close> uses its argument only, and so does the body of \<^verbatim>\<open>make_name\<close>;
  neither names a global.
\<close>

definition call_quote :: "string \<Rightarrow> store \<Rightarrow> (error + string) \<times> store" where
  "call_quote v st = (quote v, st)"

definition call_make_name :: "row \<Rightarrow> store \<Rightarrow> (error + string) \<times> store" where
  "call_make_name values st = (make_name values, st)"

text \<open>
  The body of \<^verbatim>\<open>department_oid\<close> reads the global list \<^verbatim>\<open>departments\<close> as it is at the
  time of the call and iterates over it; it assigns to nothing.
\<close>

definition call_department_oid :: "string \<Rightarrow> store \<Rightarrow> (error + string) \<times> store" where
  "call_department_oid name st = (department_oid (departments st) name, st)"

text \<open>
  A call of the \<^verbatim>\<open>OidFactory\<close> instance at an address: \<^verbatim>\<open>self.oid += 1\<close> assigns to the
  counter of that instance.
\<close>

definition call_OidFactory :: "nat \<Rightarrow> row \<Rightarrow> store \<Rightarrow> (error + string) \<times> store" where
  "call_OidFactory a r st =
     (case OidFactory_call (factories st a) r of
        (v, fac) \<Rightarrow> (Inr v, st\<lparr>factories := (factories st)(a := fac)\<rparr>))"

section \<open>The import engine\<close>

text \<open>
  The script imports \<^verbatim>\<open>CsvImporter\<close>, \<^verbatim>\<open>RecordSpec\<close> and the value classes from the
  module \<^verbatim>\<open>csv2db\<close>.  The definitions of this section stand for that module.
\<close>

text \<open>
  Modelled from the spec: the conversion callable of \<^verbatim>\<open>ColumnValue\<close> of the module
  \<^verbatim>\<open>csv2db\<close> (section 4.1).  It receives the raw value and may read the global state,
  which it cannot change.
\<close>

type_synonym convert = "store \<Rightarrow> string \<Rightarrow> error + string"

text \<open>
  Modelled from the spec: the conversion callable of \<^verbatim>\<open>MultiColumnValue\<close> of \<^verbatim>\<open>csv2db\<close>,
  over the sub-mapping of the named columns.
\<close>

type_synonym aggregate = "store \<Rightarrow> row \<Rightarrow> error + string"

text \<open>
  Modelled from the spec: the value classes \<^verbatim>\<open>ConstValue\<close>, \<^verbatim>\<open>ColumnValue\<close>,
  \<^verbatim>\<open>MultiColumnValue\<close>, \<^verbatim>\<open>DynamicValue\<close> and \<^verbatim>\<open>XReference\<close> of the module \<^verbatim>\<open>csv2db\<close>
  (the resolver variants of section 3).  A \<open>DynamicValue\<close> holds the address of the
  \<^verbatim>\<open>OidFactory\<close> instance it wraps, so that two attribute maps built from the same
  instance share its counter.
\<close>

datatype resolver =
    ConstValue string
  | ColumnValue string "convert option"
  | MultiColumnValue "string list" aggregate
  | DynamicValue nat
  | XReference string string string

text \<open>
  Modelled from the spec: the class \<^verbatim>\<open>RecordSpec\<close> of the module \<^verbatim>\<open>csv2db\<close>: an
  ordered attribute map and an optional gating predicate over the row.
\<close>

record RecordSpec =
  attr_map :: "(string \<times> resolver) list"
  condition :: "(row \<Rightarrow> error + bool) option"

text \<open>
  Modelled from the spec: the import specification handed to \<^verbatim>\<open>CsvImporter\<close> of
  \<^verbatim>\<open>csv2db\<close> (section 3): tables in declared order, each with its roles in declared
  order.
\<close>

type_synonym ImportSpec = "(string \<times> (string \<times> RecordSpec) list) list"

text \<open>
  Modelled from the spec: the cross-reference set of the current run of the importer in
  \<^verbatim>\<open>csv2db\<close>, keyed by table and role (section 4.2).  Registering a record replaces
  the one stored under its key.
\<close>

type_synonym xrefs = "((string \<times> string) \<times> OutputRecord) list"

text \<open>
  Modelled from the spec: the registration of a produced record in the cross-reference
  set of \<^verbatim>\<open>csv2db\<close> under its table and role (section 4.2).
\<close>

definition register :: "xrefs \<Rightarrow> string \<times> string \<Rightarrow> OutputRecord \<Rightarrow> xrefs" where
  "register xr k rec = filter (\<lambda>e. fst e \<noteq> k) xr @ [(k, rec)]"

text \<open>
  Modelled from the spec: the lookup of \<^verbatim>\<open>XReference\<close> in \<^verbatim>\<open>csv2db\<close> (section 4.1):
  the one registered record whose table and role match gives the attribute; zero or
  more than one match is fatal.
\<close>

definition lookup_xref :: "xrefs \<Rightarrow> string \<Rightarrow> string \<Rightarrow> string \<Rightarrow> error + string" where
  "lookup_xref xr t ro a =
     (case filter (\<lambda>e. fst e = (t, ro)) xr of
        [e] \<Rightarrow> getitem (attributes (snd e)) a
      | _ \<Rightarrow> Inl (UnresolvableReference t ro))"

text \<open>
  Modelled from the spec: the sub-mapping of the named columns that \<^verbatim>\<open>MultiColumnValue\<close>
  of \<^verbatim>\<open>csv2db\<close> hands to its conversion; a missing column is fatal (section 4.1).
\<close>

fun sub_mapping :: "row \<Rightarrow> string list \<Rightarrow> error + row" where
  "sub_mapping r [] = Inr []"
| "sub_mapping r (c # cs) =
     (case getitem r c of
        Inl e \<Rightarrow> Inl e
      | Inr v \<Rightarrow> map_sum id ((#) (c, v)) (sub_mapping r cs))"

text \<open>
  Modelled from the spec: \<^verbatim>\<open>resolve(row) -> value\<close> of the value classes of \<^verbatim>\<open>csv2db\<close>
  (sections 3 and 4.1).  Only the dynamic variant changes the state: it calls the
  \<^verbatim>\<open>OidFactory\<close> instance it wraps.
\<close>

fun resolve :: "xrefs \<Rightarrow> row \<Rightarrow> resolver \<Rightarrow> store \<Rightarrow> (error + string) \<times> store" where
  "resolve xr r (ConstValue v) st = (Inr v, st)"
| "resolve xr r (ColumnValue c conv) st =
     (case getitem r c of
        Inl e \<Rightarrow> (Inl e, st)
      | Inr v \<Rightarrow> (case conv of None \<Rightarrow> (Inr v, st) | Some f \<Rightarrow> (f st v, st)))"
| "resolve xr r (MultiColumnValue cs f) st =
     (case sub_mapping r cs of
        Inl e \<Rightarrow> (Inl e, st)
      | Inr vs \<Rightarrow> (f st vs, st))"
| "resolve xr r (DynamicValue a) st =
     (case OidFactory_call (factories st a) r of
        (v, fac) \<Rightarrow> (Inr v, st\<lparr>factories := (factories st)(a := fac)\<rparr>))"
| "resolve xr r (XReference t ro a) st = (lookup_xref xr t ro a, st)"

text \<open>
  Modelled from the spec: the evaluation of an attribute map in declaration order
  (section 4.2) in \<^verbatim>\<open>csv2db\<close>; the first failure aborts it.
\<close>

fun resolve_attrs ::
  "xrefs \<Rightarrow> row \<Rightarrow> (string \<times> resolver) list \<Rightarrow> store \<Rightarrow> (error + (string \<times> string) list) \<times> store" where
  "resolve_attrs xr r [] st = (Inr [], st)"
| "resolve_attrs xr r ((k, res) # rest) st =
     (case resolve xr r res st of
        (Inl e, st') \<Rightarrow> (Inl e, st')
      | (Inr v, st') \<Rightarrow>
          (case resolve_attrs xr r rest st' of
             (Inl e, st'') \<Rightarrow> (Inl e, st'')
           | (Inr vs, st'') \<Rightarrow> (Inr ((k, v) # vs), st'')))"

text \<open>
  Modelled from the spec: the gating predicate of a \<^verbatim>\<open>RecordSpec\<close> of \<^verbatim>\<open>csv2db\<close>, true
  when none is given (section 4.2).
\<close>

definition gate :: "RecordSpec \<Rightarrow> row \<Rightarrow> error + bool" where
  "gate rs r = (case condition rs of None \<Rightarrow> Inr True | Some p \<Rightarrow> p r)"

text \<open>
  Modelled from the spec: the evaluation of one \<^verbatim>\<open>RecordSpec\<close> against one row in
  \<^verbatim>\<open>csv2db\<close> (section 4.2): the predicate first; when it is false nothing is produced
  and no resolver runs; when it is true every resolver runs in declaration order and the
  record is assembled, tagged with the value of the row-id column when one is given
  (section 4.3).
\<close>

definition eval_record_spec ::
  "string \<Rightarrow> RecordSpec \<Rightarrow> string option \<Rightarrow> row \<Rightarrow> xrefs \<Rightarrow> store \<Rightarrow> (error + OutputRecord option) \<times> store" where
  "eval_record_spec t rs id_col r xr st =
     (case gate rs r of
        Inl e \<Rightarrow> (Inl e, st)
      | Inr False \<Rightarrow> (Inr None, st)
      | Inr True \<Rightarrow>
          (case resolve_attrs xr r (attr_map rs) st of
             (Inl e, st') \<Rightarrow> (Inl e, st')
           | (Inr attrs, st') \<Rightarrow>
               (case id_col of
                  None \<Rightarrow> (Inr (Some \<lparr>table_name = t, attributes = attrs, row_id = None\<rparr>), st')
                | Some c \<Rightarrow>
                    (case getitem r c of
                       Inl e \<Rightarrow> (Inl e, st')
                     | Inr v \<Rightarrow> (Inr (Some \<lparr>table_name = t, attributes = attrs, row_id = Some v\<rparr>), st')))))"

text \<open>
  Modelled from the spec: the iteration of the importer of \<^verbatim>\<open>csv2db\<close> over an import
  specification (section 4.3): tables in order, the roles of each table in order.
\<close>

definition entries :: "ImportSpec \<Rightarrow> (string \<times> string \<times> RecordSpec) list" where
  "entries spec = concat (map (\<lambda>(t, roles). map (\<lambda>(ro, rs). (t, ro, rs)) roles) spec)"

text \<open>
  Modelled from the spec: the processing of one row by the importer of \<^verbatim>\<open>csv2db\<close>
  (sections 4.2 and 4.3): every entry is evaluated in order, each produced record is
  registered under its table and role, and the first failure aborts the row.  The
  result is the records of the row with their keys and the cross-reference set after it.
\<close>

fun process_entries ::
  "(string \<times> string \<times> RecordSpec) list \<Rightarrow> string option \<Rightarrow> row \<Rightarrow> xrefs \<Rightarrow> store \<Rightarrow> (error + xrefs \<times> xrefs) \<times> store" where
  "process_entries [] id_col r xr st = (Inr ([], xr), st)"
| "process_entries ((t, ro, rs) # es) id_col r xr st =
     (case eval_record_spec t rs id_col r xr st of
        (Inl e, st') \<Rightarrow> (Inl e, st')
      | (Inr None, st') \<Rightarrow> process_entries es id_col r xr st'
      | (Inr (Some rec), st') \<Rightarrow>
          (case process_entries es id_col r (register xr (t, ro) rec) st' of
             (Inl e, st'') \<Rightarrow> (Inl e, st'')
           | (Inr (out, xr'), st'') \<Rightarrow> (Inr (((t, ro), rec) # out, xr'), st'')))"

text \<open>
  Modelled from the spec: the loop of \<^verbatim>\<open>CsvImporter.import_data\<close> of \<^verbatim>\<open>csv2db\<close>
  (section 4.3) over the parsed rows of the file: the rows in order, the records of all
  rows in one sequence.
\<close>

fun import_rows ::
  "ImportSpec \<Rightarrow> string option \<Rightarrow> row list \<Rightarrow> xrefs \<Rightarrow> store \<Rightarrow> (error + OutputRecord list) \<times> store" where
  "import_rows spec id_col [] xr st = (Inr [], st)"
| "import_rows spec id_col (r # rows) xr st =
     (case process_entries (entries spec) id_col r xr st of
        (Inl e, st') \<Rightarrow> (Inl e, st')
      | (Inr (out, xr'), st') \<Rightarrow>
          (case import_rows spec id_col rows xr' st' of
             (Inl e, st'') \<Rightarrow> (Inl e, st'')
           | (Inr recs, st'') \<Rightarrow> (Inr (map snd out @ recs), st'')))"

text \<open>
  Modelled from the spec: \<^verbatim>\<open>CsvImporter.import_data\<close> of \<^verbatim>\<open>csv2db\<close>: a run starts with
  an empty cross-reference set (section 4.1).
\<close>

definition import_data ::
  "ImportSpec \<Rightarrow> string option \<Rightarrow> row list \<Rightarrow> store \<Rightarrow> (error + OutputRecord list) \<times> store" where
  "import_data spec id_col rows st = import_rows spec id_col rows [] st"

text \<open>
  Modelled from the spec: the separator-joined lists of names and of values in the
  statement of a record of \<^verbatim>\<open>csv2db\<close> (section 4.4).
\<close>

fun join :: "string \<Rightarrow> string list \<Rightarrow> string" where
  "join sep [] = []"
| "join sep [x] = x"
| "join sep (x # y # ys) = x @ sep @ join sep (y # ys)"

text \<open>
  Modelled from the spec: \<^verbatim>\<open>insert_statement\<close> of the records of \<^verbatim>\<open>csv2db\<close>
  (sections 4.4 and 6): one statement with the attributes in declared order and the
  values verbatim, ended by a newline.
\<close>

definition insert_statement :: "OutputRecord \<Rightarrow> string" where
  "insert_statement rec =
     ''INSERT INTO '' @ table_name rec @ '' ('' @ join '', '' (map fst (attributes rec))
       @ '') VALUES ('' @ join '', '' (map snd (attributes rec)) @ '');'' @ [CHR 0x0A]"

section \<open>Import specifications of the script\<close>

text \<open>
  The module creates four \<^verbatim>\<open>OidFactory\<close> instances, one in each attribute map, in the
  order of the maps: addresses 0 to 3.
\<close>

definition PUBLIC_OBJECT_MAP :: "(string \<times> resolver) list" where
  "PUBLIC_OBJECT_MAP =
     [(''_oid'', DynamicValue 0),
      (''date'', ConstValue ''now()'')]"

definition DEPARTMENT_MAP :: "(string \<times> resolver) list" where
  "DEPARTMENT_MAP =
     [(''_oid'', DynamicValue 1),
      (''_publicobj_oid'', XReference ''publicobject'' ''sole'' ''_oid''),
      (''name'', ColumnValue ''Department'' (Some (\<lambda>st. quote))),
      (''floor'', ColumnValue ''Floor'' (Some (\<lambda>st. quote)))]"

definition DEP_IMPORT_SPEC :: ImportSpec where
  "DEP_IMPORT_SPEC =
     [(''publicobject'',
         [(''sole'', \<lparr>attr_map = PUBLIC_OBJECT_MAP, condition = None\<rparr>)]),
      (''departments'',
         [(''sole'', \<lparr>attr_map = DEPARTMENT_MAP, condition = None\<rparr>)])]"

definition EMPLOYEE_MAP :: "(string \<times> resolver) list" where
  "EMPLOYEE_MAP =
     [(''_oid'', DynamicValue 2),
      (''_publicobj_oid'', XReference ''publicobject'' ''emp'' ''_oid''),
      (''department_oid'', ColumnValue ''Department'' (Some (\<lambda>st. department_oid (departments st)))),
      (''name'', MultiColumnValue [''First'', ''Last''] (\<lambda>st. make_name))]"

definition PHONE_MAP :: "(string \<times> resolver) list" where
  "PHONE_MAP =
     [(''_oid'', DynamicValue 3),
      (''_publicobj_oid'', XReference ''publicobject'' ''phone'' ''_oid''),
      (''_employee_oid'', XReference ''employees'' ''sole'' ''_oid''),
      (''number'', ColumnValue ''Phone'' (Some (\<lambda>st. quote)))]"

definition EMP_IMPORT_SPEC :: ImportSpec where
  "EMP_IMPORT_SPEC =
     [(''publicobject'',
         [(''emp'', \<lparr>attr_map = PUBLIC_OBJECT_MAP, condition = None\<rparr>),
          (''phone'', \<lparr>attr_map = PUBLIC_OBJECT_MAP, condition = Some has_phone\<rparr>)]),
      (''employees'',
         [(''sole'', \<lparr>attr_map = EMPLOYEE_MAP, condition = None\<rparr>)]),
      (''phones'',
         [(''sole'', \<lparr>attr_map = PHONE_MAP, condition = Some has_phone\<rparr>)])]"

section \<open>The main program\<close>

text \<open>
  The first loop of \<^verbatim>\<open>main\<close>: appends the statement of each record to the SQL text and
  stores the records of the table \<^verbatim>\<open>departments\<close> in the global list.
\<close>

fun first_loop :: "(OutputRecord \<Rightarrow> string) \<Rightarrow> OutputRecord list \<Rightarrow> string \<Rightarrow> store \<Rightarrow> string \<times> store" where
  "first_loop stmt [] sql st = (sql, st)"
| "first_loop stmt (rec # recs) sql st =
     first_loop stmt recs (sql @ stmt rec)
       (if table_name rec = ''departments''
        then st\<lparr>departments := departments st @ [rec]\<rparr> else st)"

text \<open>The second loop of \<^verbatim>\<open>main\<close>: appends the statement of each record.\<close>

fun second_loop :: "(OutputRecord \<Rightarrow> string) \<Rightarrow> OutputRecord list \<Rightarrow> string \<Rightarrow> string" where
  "second_loop stmt [] sql = sql"
| "second_loop stmt (rec # recs) sql = second_loop stmt recs (sql @ stmt rec)"

text \<open>
  \<^verbatim>\<open>main\<close>, over the importer and the statement renderer it takes from \<^verbatim>\<open>csv2db\<close> and
  over the parsed rows of the files \<^verbatim>\<open>departments.txt\<close> and \<^verbatim>\<open>employees.txt\<close>.  The
  result is the text written to \<^verbatim>\<open>import.sql\<close>; an exception of either import leaves
  \<^verbatim>\<open>main\<close> before the file is opened.
\<close>

type_synonym importer =
  "ImportSpec \<Rightarrow> string option \<Rightarrow> row list \<Rightarrow> store \<Rightarrow> (error + OutputRecord list) \<times> store"

definition main_with ::
  "importer \<Rightarrow> (OutputRecord \<Rightarrow> string) \<Rightarrow> row list \<Rightarrow> row list \<Rightarrow> store \<Rightarrow> (error + string) \<times> store" where
  "main_with imp stmt dep_rows emp_rows st =
     (case imp DEP_IMPORT_SPEC (Some ''Department'') dep_rows st of
        (Inl e, st1) \<Rightarrow> (Inl e, st1)
      | (Inr db_records, st1) \<Rightarrow>
          (case first_loop stmt db_records [] st1 of
             (sql, st2) \<Rightarrow>
               (case imp EMP_IMPORT_SPEC None emp_rows st2 of
                  (Inl e, st3) \<Rightarrow> (Inl e, st3)
                | (Inr db_records', st3) \<Rightarrow> (Inr (second_loop stmt db_records' sql), st3))))"

definition main :: "row list \<Rightarrow> row list \<Rightarrow> store \<Rightarrow> (error + string) \<times> store" where
  "main = main_with import_data insert_statement"

section \<open>Notions used in the statements\<close>

text \<open>The addresses of the \<^verbatim>\<open>OidFactory\<close> instances an attribute map invokes.\<close>

primrec resolver_refs :: "resolver \<Rightarrow> nat list" where
  "resolver_refs (ConstValue v) = []"
| "resolver_refs (ColumnValue c conv) = []"
| "resolver_refs (MultiColumnValue cs f) = []"
| "resolver_refs (DynamicValue a) = [a]"
| "resolver_refs (XReference t ro a) = []"

definition attr_refs :: "(string \<times> resolver) list \<Rightarrow> nat list" where
  "attr_refs am = concat (map (\<lambda>(k, res). resolver_refs res) am)"

text \<open>An entry of an import specification whose predicate is true on the row, and its key.\<close>

definition passes :: "row \<Rightarrow> string \<times> string \<times> RecordSpec \<Rightarrow> bool" where
  "passes r e = (case e of (t, ro, rs) \<Rightarrow> gate rs r = Inr True)"

definition entry_key :: "string \<times> string \<times> RecordSpec \<Rightarrow> string \<times> string" where
  "entry_key e = (case e of (t, ro, rs) \<Rightarrow> (t, ro))"

text \<open>The \<^verbatim>\<open>_oid\<close> attributes of the records of one table, in the order of the records.\<close>

definition table_oids :: "string \<Rightarrow> OutputRecord list \<Rightarrow> string option list" where
  "table_oids t recs =
     map (\<lambda>rec. map_of (attributes rec) ''_oid'') (filter (\<lambda>rec. table_name rec = t) recs)"

text \<open>
  Every entry for the table \<^verbatim>\<open>publicobject\<close> uses \<open>PUBLIC_OBJECT_MAP\<close>, and no other
  entry invokes the \<^verbatim>\<open>OidFactory\<close> of that map.
\<close>

definition shares_public_counter :: "(string \<times> string \<times> RecordSpec) list \<Rightarrow> bool" where
  "shares_public_counter es =
     list_all (\<lambda>e. if fst e = ''publicobject''
                    then attr_map (snd (snd e)) = PUBLIC_OBJECT_MAP
                    else 0 \<notin> set (attr_refs (attr_map (snd (snd e))))) es"

text \<open>
  A resolver whose conversion returns the same result in every state: it reads neither
  the global list \<^verbatim>\<open>departments\<close> nor any counter.
\<close>

primrec cache_independent :: "resolver \<Rightarrow> bool" where
  "cache_independent (ConstValue v) = True"
| "cache_independent (ColumnValue c conv) =
     (case conv of None \<Rightarrow> True | Some f \<Rightarrow> \<forall>st st' v. f st v = f st' v)"
| "cache_independent (MultiColumnValue cs f) = (\<forall>st st' vs. f st vs = f st' vs)"
| "cache_independent (DynamicValue a) = True"
| "cache_independent (XReference t ro a) = True"

subsection \<open>Example data\<close>

definition example_dep_rows :: "row list" where
  "example_dep_rows =
     [[(''Department'', ''Sales''), (''Floor'', ''3'')],
      [(''Department'', ''Eng''), (''Floor'', ''4'')]]"

definition example_emp_nophone :: row where
  "example_emp_nophone =
     [(''First'', ''Jane''), (''Last'', ''Doe''), (''Department'', ''Sales''), (''Phone'', ''-'')]"

definition example_emp_phone :: row where
  "example_emp_phone =
     [(''First'', ''Al''), (''Last'', ''Roe''), (''Department'', ''Eng''), (''Phone'', ''555-1234'')]"

definition example_departments :: "OutputRecord list" where
  "example_departments =
     [\<lparr>table_name = ''departments'',
       attributes = [(''_oid'', ''1''), (''_publicobj_oid'', ''1'')], row_id = Some ''Sales''\<rparr>,
      \<lparr>table_name = ''departments'',
       attributes = [(''_oid'', ''2''), (''_publicobj_oid'', ''2'')], row_id = Some ''Eng''\<rparr>,
      \<lparr>table_name = ''departments'',
       attributes = [(''_oid'', ''3''), (''_publicobj_oid'', ''3'')], row_id = Some ''Sales''\<rparr>]"

definition example_store :: store where
  "example_store = init_store\<lparr>departments := example_departments\<rparr>"

text \<open>The two passes of \<^verbatim>\<open>main\<close> on the example files, from the initial state.\<close>

definition example_dep_run :: "(error + OutputRecord list) \<times> store" where
  "example_dep_run = import_data DEP_IMPORT_SPEC (Some ''Department'') example_dep_rows init_store"

definition example_emp_run :: "(error + OutputRecord list) \<times> store" where
  "example_emp_run =
     import_data EMP_IMPORT_SPEC None [example_emp_nophone, example_emp_phone]
       ((snd example_dep_run)\<lparr>departments := departments (snd example_dep_run)
          @ filter (\<lambda>rec. table_name rec = ''departments'') (projr (fst example_dep_run))\<rparr>)"

section \<open>Properties of the helper functions\<close>

lemma OidFactory_calls_from:
  "OidFactory_calls self rows =
     (map str_int [oid self + 1 .. oid self + int (length rows)],
      self\<lparr>oid := oid self + int (length rows)\<rparr>)"
proof (induction rows arbitrary: self)
  case Nil
  then show ?case by simp
next
  case (Cons r rows)
  have "[oid self + 1 .. oid self + 1 + int (length rows)] =
        (oid self + 1) # [oid self + 1 + 1 .. oid self + 1 + int (length rows)]"
    by (simp add: upto_rec1)
  with Cons.IH [of "self\<lparr>oid := oid self + 1\<rparr>"] show ?case
    by (simp add: OidFactory_call_def Let_def add.assoc)
qed

text \<open>
  Claim C2.  For every number of calls, one \<^verbatim>\<open>OidFactory\<close> instance returns the decimal
  texts of 1, 2, ..., N in this order, whatever rows it is called with: the sequence
  starts at 1 and grows by one per call.  After N calls the counter holds N, and three
  calls return \<^verbatim>\<open>"1"\<close>, \<^verbatim>\<open>"2"\<close>, \<^verbatim>\<open>"3"\<close>.
\<close>

theorem OidFactory_sequence:
  "fst (OidFactory_calls OidFactory_init rows) = map str_int [1 .. int (length rows)]
   \<and> oid (snd (OidFactory_calls OidFactory_init rows)) = int (length rows)
   \<and> fst (OidFactory_calls OidFactory_init [r1, r2, r3]) = [''1'', ''2'', ''3'']"
  by (simp add: OidFactory_calls_from OidFactory_init_def upto_rec1 str_int_def
      str_nat.simps digit_char_def)

text \<open>
  Claim C10.  \<^verbatim>\<open>quote\<close> escapes nothing: for every string the result is that string
  between one leading and one trailing single quote, whatever characters it contains.
\<close>

theorem quote_no_escaping: "quote s = Inr ([CHR 0x27] @ s @ [CHR 0x27])"
  by (simp add: quote_def)

text \<open>
  Claim C6.  For a mapping that holds \<^verbatim>\<open>First\<close> and \<^verbatim>\<open>Last\<close>, \<^verbatim>\<open>make_name\<close> returns the
  first value, a space and the last value between single quotes; when either key is
  absent it raises \<^verbatim>\<open>KeyError\<close> and returns no name.
\<close>

theorem make_name_concat:
  "(map_of values ''First'' = Some f \<and> map_of values ''Last'' = Some l \<longrightarrow>
      make_name values = Inr ([CHR 0x27] @ f @ '' '' @ l @ [CHR 0x27]))
   \<and> (map_of values ''First'' = None \<or> map_of values ''Last'' = None \<longrightarrow>
      (\<exists>k. make_name values = Inl (KeyError k)))"
  by (auto simp add: make_name_def getitem_def split: option.splits)

theorem make_name_concat_witness:
  "make_name [(''First'', ''Jane''), (''Last'', ''Doe'')] = Inr ([CHR 0x27] @ ''Jane Doe'' @ [CHR 0x27])
   \<and> (\<exists>k. make_name [(''First'', ''Jane'')] = Inl (KeyError k))"
  using make_name_concat [of "[(''First'', ''Jane''), (''Last'', ''Doe'')]" "''Jane''" "''Doe''"]
    make_name_concat [of "[(''First'', ''Jane'')]" "''Jane''" "''Doe''"]
  by simp

lemma department_oid_find:
  "department_oid ds name =
     (case find (\<lambda>d. row_id d = Some name) ds of
        None \<Rightarrow> Inl StopIteration
      | Some d \<Rightarrow> getitem (attributes d) ''_oid'')"
  by (induction ds) simp_all

text \<open>
  Claim C4.  Over a list of retained department records, each of which carries an
  \<^verbatim>\<open>_oid\<close> attribute (as every record built from \<open>DEPARTMENT_MAP\<close> does),
  \<^verbatim>\<open>department_oid(name)\<close> succeeds exactly when some record has the row id \<^verbatim>\<open>name\<close>;
  on success the result is the \<^verbatim>\<open>_oid\<close> of the first such record in list order; when
  no record matches it raises \<^verbatim>\<open>StopIteration\<close> and returns no value.
\<close>

theorem department_oid_lookup:
  assumes "\<forall>d\<in>set ds. map_of (attributes d) ''_oid'' \<noteq> None"
  shows "((\<exists>v. department_oid ds name = Inr v) \<longleftrightarrow> (\<exists>d\<in>set ds. row_id d = Some name))
    \<and> (\<forall>v. department_oid ds name = Inr v \<longrightarrow>
          (\<exists>d. find (\<lambda>d. row_id d = Some name) ds = Some d \<and> map_of (attributes d) ''_oid'' = Some v))
    \<and> ((\<forall>d\<in>set ds. row_id d \<noteq> Some name) \<longrightarrow> department_oid ds name = Inl StopIteration)"
  using assms
  by (induction ds) (auto simp add: getitem_def split: option.splits)

theorem department_oid_lookup_witness:
  "list_all (\<lambda>d. map_of (attributes d) ''_oid'' \<noteq> None) example_departments
   \<and> (\<exists>d\<in>set example_departments. row_id d = Some ''Sales'')
   \<and> department_oid example_departments ''Sales'' = Inr ''1''
   \<and> list_all (\<lambda>d. row_id d \<noteq> Some ''HR'') example_departments
   \<and> department_oid example_departments ''HR'' = Inl StopIteration"
proof -
  have h: "\<forall>d\<in>set example_departments. map_of (attributes d) ''_oid'' \<noteq> None"
    by (simp add: example_departments_def)
  have none: "\<forall>d\<in>set example_departments. row_id d \<noteq> Some ''HR''"
    by (simp add: example_departments_def)
  have some: "\<exists>d\<in>set example_departments. row_id d = Some ''Sales''"
    by (simp add: example_departments_def)
  from department_oid_lookup [OF h, of "''Sales''"] some
  obtain v d where "department_oid example_departments ''Sales'' = Inr v"
    and "find (\<lambda>d. row_id d = Some ''Sales'') example_departments = Some d"
    and "map_of (attributes d) ''_oid'' = Some v"
    by blast
  then have "department_oid example_departments ''Sales'' = Inr ''1''"
    by (auto simp add: example_departments_def)
  with department_oid_lookup [OF h, of "''HR''"] h none some show ?thesis
    by (simp add: list_all_iff)
qed

section \<open>Properties of the import engine\<close>

lemma resolve_frame:
  "resolve xr r res st = (x, st') \<Longrightarrow>
     departments st' = departments st \<and> (a \<notin> set (resolver_refs res) \<longrightarrow> factories st' a = factories st a)"
  by (cases res) (auto simp add: OidFactory_call_def Let_def split: sum.splits option.splits)

lemma resolve_attrs_frame:
  "resolve_attrs xr r am st = (x, st') \<Longrightarrow>
     departments st' = departments st \<and> (a \<notin> set (attr_refs am) \<longrightarrow> factories st' a = factories st a)"
proof (induction am arbitrary: st x st')
  case Nil
  then show ?case by simp
next
  case (Cons kr am)
  obtain k res where kr: "kr = (k, res)" by (cases kr)
  obtain y st1 where step: "resolve xr r res st = (y, st1)" by (cases "resolve xr r res st")
  note fr = resolve_frame [OF step, of a]
  show ?case
  proof (cases y)
    case (Inl e)
    with Cons.prems kr step fr show ?thesis by (simp add: attr_refs_def)
  next
    case (Inr v)
    obtain z st2 where rest: "resolve_attrs xr r am st1 = (z, st2)" by (cases "resolve_attrs xr r am st1")
    from Cons.prems kr step Inr rest have "st' = st2" by (simp split: sum.splits)
    with Cons.IH [OF rest] fr show ?thesis by (simp add: attr_refs_def kr)
  qed
qed

lemma resolve_attrs_names:
  "resolve_attrs xr r am st = (Inr attrs, st') \<Longrightarrow> map fst attrs = map fst am"
proof (induction am arbitrary: st attrs st')
  case Nil
  then show ?case by simp
next
  case (Cons kr am)
  obtain k res where kr: "kr = (k, res)" by (cases kr)
  obtain y st1 where step: "resolve xr r res st = (y, st1)" by (cases "resolve xr r res st")
  obtain z st2 where rest: "resolve_attrs xr r am st1 = (z, st2)" by (cases "resolve_attrs xr r am st1")
  from Cons.prems kr step rest obtain v vs where
    "z = Inr vs" and "attrs = (k, v) # vs"
    by (auto split: sum.splits)
  with Cons.IH [of st1 vs st2] rest kr show ?case by simp
qed

lemma eval_record_spec_closed:
  "gate rs r = Inr False \<Longrightarrow> eval_record_spec t rs id_col r xr st = (Inr None, st)"
  by (simp add: eval_record_spec_def)

lemma eval_record_spec_frame:
  assumes "eval_record_spec t rs id_col r xr st = (x, st')"
  shows "departments st' = departments st"
    and "a \<notin> set (attr_refs (attr_map rs)) \<or> gate rs r = Inr False \<Longrightarrow> factories st' a = factories st a"
proof -
  obtain y st1 where ra: "resolve_attrs xr r (attr_map rs) st = (y, st1)"
    by (cases "resolve_attrs xr r (attr_map rs) st")
  note fr = resolve_attrs_frame [OF ra, of a]
  from assms ra fr show "departments st' = departments st"
    by (auto simp add: eval_record_spec_def split: sum.splits bool.splits option.splits)
  assume "a \<notin> set (attr_refs (attr_map rs)) \<or> gate rs r = Inr False"
  with assms ra fr show "factories st' a = factories st a"
    by (auto simp add: eval_record_spec_def split: sum.splits bool.splits option.splits)
qed

lemma eval_record_spec_Some:
  "eval_record_spec t rs id_col r xr st = (Inr (Some rec), st') \<Longrightarrow> gate rs r = Inr True \<and> table_name rec = t"
  by (auto simp add: eval_record_spec_def split: sum.splits bool.splits option.splits prod.splits)

lemma eval_record_spec_None:
  "eval_record_spec t rs id_col r xr st = (Inr None, st') \<Longrightarrow> gate rs r = Inr False \<and> st' = st"
  by (auto simp add: eval_record_spec_def split: sum.splits bool.splits option.splits prod.splits)

lemma eval_record_spec_names:
  "eval_record_spec t rs id_col r xr st = (Inr (Some rec), st') \<Longrightarrow>
   map fst (attributes rec) = map fst (attr_map rs)"
  by (auto simp add: eval_record_spec_def resolve_attrs_names
      split: sum.splits bool.splits option.splits prod.splits)

lemma process_entries_frame:
  "process_entries es id_col r xr st = (x, st') \<Longrightarrow>
   \<forall>e\<in>set es. a \<in> set (attr_refs (attr_map (snd (snd e)))) \<longrightarrow> gate (snd (snd e)) r = Inr False \<Longrightarrow>
   factories st' a = factories st a"
proof (induction es arbitrary: xr st x st')
  case Nil
  then show ?case by simp
next
  case (Cons e es)
  obtain t ro rs where e: "e = (t, ro, rs)" by (cases e)
  obtain y st1 where ev: "eval_record_spec t rs id_col r xr st = (y, st1)"
    by (cases "eval_record_spec t rs id_col r xr st")
  from Cons.prems(2) e have "a \<notin> set (attr_refs (attr_map rs)) \<or> gate rs r = Inr False" by auto
  from eval_record_spec_frame(2) [OF ev this] have f1: "factories st1 a = factories st a" .
  from Cons.prems(2) have rest: "\<forall>e\<in>set es. a \<in> set (attr_refs (attr_map (snd (snd e)))) \<longrightarrow> gate (snd (snd e)) r = Inr False"
    by simp
  show ?case
  proof (cases y)
    case (Inl err)
    with Cons.prems(1) e ev f1 show ?thesis by simp
  next
    case (Inr opt)
    show ?thesis
    proof (cases opt)
      case None
      with Cons.prems(1) e ev Inr have "process_entries es id_col r xr st1 = (x, st')" by simp
      from Cons.IH [OF this rest] f1 show ?thesis by simp
    next
      case (Some rec)
      obtain z st2 where pe: "process_entries es id_col r (register xr (t, ro) rec) st1 = (z, st2)"
        by (cases "process_entries es id_col r (register xr (t, ro) rec) st1")
      with Cons.prems(1) e ev Inr Some have "st' = st2" by (auto split: sum.splits)
      with Cons.IH [OF pe rest] f1 show ?thesis by simp
    qed
  qed
qed

lemma process_entries_keys:
  "process_entries es id_col r xr st = (Inr (out, xr'), st') \<Longrightarrow>
   map fst out = map entry_key (filter (passes r) es)"
proof (induction es arbitrary: xr st out xr' st')
  case Nil
  then show ?case by simp
next
  case (Cons e es)
  obtain t ro rs where e: "e = (t, ro, rs)" by (cases e)
  obtain y st1 where ev: "eval_record_spec t rs id_col r xr st = (y, st1)"
    by (cases "eval_record_spec t rs id_col r xr st")
  show ?case
  proof (cases y)
    case (Inl err)
    with Cons.prems e ev show ?thesis by simp
  next
    case (Inr opt)
    show ?thesis
    proof (cases opt)
      case None
      with Cons.prems e ev Inr have pe: "process_entries es id_col r xr st1 = (Inr (out, xr'), st')" by simp
      from ev Inr None have "gate rs r = Inr False" by (simp add: eval_record_spec_None)
      with Cons.IH [OF pe] e show ?thesis by (simp add: passes_def)
    next
      case (Some rec)
      from ev Inr Some have g: "gate rs r = Inr True" by (simp add: eval_record_spec_Some)
      obtain z st2 where pe: "process_entries es id_col r (register xr (t, ro) rec) st1 = (z, st2)"
        by (cases "process_entries es id_col r (register xr (t, ro) rec) st1")
      with Cons.prems e ev Inr Some obtain out' where
        z: "z = Inr (out', xr')" and out: "out = ((t, ro), rec) # out'" and "st' = st2"
        by (auto split: sum.splits)
      from pe z have "process_entries es id_col r (register xr (t, ro) rec) st1 = (Inr (out', xr'), st2)" by simp
      from Cons.IH [OF this] g e out show ?thesis by (simp add: passes_def entry_key_def)
    qed
  qed
qed

lemma process_entries_tables:
  "process_entries es id_col r xr st = (Inr (out, xr'), st') \<Longrightarrow>
   map (\<lambda>kr. table_name (snd kr)) out = map (\<lambda>kr. fst (fst kr)) out"
proof (induction es arbitrary: xr st out xr' st')
  case Nil
  then show ?case by simp
next
  case (Cons e es)
  obtain t ro rs where e: "e = (t, ro, rs)" by (cases e)
  obtain y st1 where ev: "eval_record_spec t rs id_col r xr st = (y, st1)"
    by (cases "eval_record_spec t rs id_col r xr st")
  show ?case
  proof (cases y)
    case (Inl err)
    with Cons.prems e ev show ?thesis by simp
  next
    case (Inr opt)
    show ?thesis
    proof (cases opt)
      case None
      with Cons.prems e ev Inr have "process_entries es id_col r xr st1 = (Inr (out, xr'), st')" by simp
      from Cons.IH [OF this] show ?thesis .
    next
      case (Some rec)
      from ev Inr Some have tn: "table_name rec = t" by (simp add: eval_record_spec_Some)
      obtain z st2 where pe: "process_entries es id_col r (register xr (t, ro) rec) st1 = (z, st2)"
        by (cases "process_entries es id_col r (register xr (t, ro) rec) st1")
      with Cons.prems e ev Inr Some obtain out' where
        z: "z = Inr (out', xr')" and out: "out = ((t, ro), rec) # out'"
        by (auto split: sum.splits)
      from pe z have "process_entries es id_col r (register xr (t, ro) rec) st1 = (Inr (out', xr'), st2)" by simp
      from Cons.IH [OF this] tn out show ?thesis by simp
    qed
  qed
qed

lemma process_entries_has_oid:
  "\<forall>e\<in>set es. ''_oid'' \<in> fst ` set (attr_map (snd (snd e))) \<Longrightarrow>
   process_entries es id_col r xr st = (Inr (out, xr'), st') \<Longrightarrow>
   \<forall>kr\<in>set out. map_of (attributes (snd kr)) ''_oid'' \<noteq> None"
proof (induction es arbitrary: xr st out xr' st')
  case Nil
  then show ?case by simp
next
  case (Cons e es)
  obtain t ro rs where e: "e = (t, ro, rs)" by (cases e)
  from Cons.prems(1) have rest: "\<forall>e\<in>set es. ''_oid'' \<in> fst ` set (attr_map (snd (snd e)))" by simp
  obtain y st1 where ev: "eval_record_spec t rs id_col r xr st = (y, st1)"
    by (cases "eval_record_spec t rs id_col r xr st")
  show ?case
  proof (cases y)
    case (Inl err)
    with Cons.prems(2) e ev show ?thesis by simp
  next
    case (Inr opt)
    show ?thesis
    proof (cases opt)
      case None
      with Cons.prems(2) e ev Inr have "process_entries es id_col r xr st1 = (Inr (out, xr'), st')" by simp
      from Cons.IH [OF rest this] show ?thesis .
    next
      case (Some rec)
      from ev Inr Some have "map fst (attributes rec) = map fst (attr_map rs)"
        by (simp add: eval_record_spec_names)
      then have "fst ` set (attributes rec) = fst ` set (attr_map rs)"
        by (metis set_map)
      with Cons.prems(1) e have has: "map_of (attributes rec) ''_oid'' \<noteq> None"
        by (simp add: map_of_eq_None_iff)
      obtain z st2 where pe: "process_entries es id_col r (register xr (t, ro) rec) st1 = (z, st2)"
        by (cases "process_entries es id_col r (register xr (t, ro) rec) st1")
      with Cons.prems(2) e ev Inr Some obtain out' where
        z: "z = Inr (out', xr')" and out: "out = ((t, ro), rec) # out'"
        by (auto split: sum.splits)
      from pe z have "process_entries es id_col r (register xr (t, ro) rec) st1 = (Inr (out', xr'), st2)" by simp
      from Cons.IH [OF rest this] has out show ?thesis by simp
    qed
  qed
qed

lemma import_rows_has_oid:
  "\<forall>e\<in>set (entries spec). ''_oid'' \<in> fst ` set (attr_map (snd (snd e))) \<Longrightarrow>
   import_rows spec id_col rows xr st = (Inr recs, st') \<Longrightarrow>
   \<forall>rec\<in>set recs. map_of (attributes rec) ''_oid'' \<noteq> None"
proof (induction rows arbitrary: xr st recs st')
  case Nil
  then show ?case by simp
next
  case (Cons r rows)
  obtain y st1 where pe: "process_entries (entries spec) id_col r xr st = (y, st1)"
    by (cases "process_entries (entries spec) id_col r xr st")
  show ?case
  proof (cases y)
    case (Inl err)
    with Cons.prems(2) pe show ?thesis by simp
  next
    case (Inr p)
    obtain out xr1 where p: "p = (out, xr1)" by (cases p)
    obtain z st2 where ir: "import_rows spec id_col rows xr1 st1 = (z, st2)"
      by (cases "import_rows spec id_col rows xr1 st1")
    with Cons.prems(2) pe Inr p obtain recs' where
      z: "z = Inr recs'" and recs: "recs = map snd out @ recs'"
      by (auto split: sum.splits)
    from pe Inr p have "process_entries (entries spec) id_col r xr st = (Inr (out, xr1), st1)" by simp
    from process_entries_has_oid [OF Cons.prems(1) this]
    have a: "\<forall>kr\<in>set out. map_of (attributes (snd kr)) ''_oid'' \<noteq> None" .
    from ir z have "import_rows spec id_col rows xr1 st1 = (Inr recs', st2)" by simp
    from Cons.IH [OF Cons.prems(1) this] a recs show ?thesis by auto
  qed
qed

text \<open>
  Every record that \<^verbatim>\<open>main\<close> retains after the departments pass carries an
  \<^verbatim>\<open>_oid\<close> attribute: a record has exactly the attributes its map declares.
\<close>

lemma retained_departments_have_oid:
  assumes "import_data DEP_IMPORT_SPEC id_col rows st = (Inr recs, st')"
  shows "\<forall>d\<in>set (filter (\<lambda>rec. table_name rec = ''departments'') recs).
           map_of (attributes d) ''_oid'' \<noteq> None"
proof -
  have "\<forall>e\<in>set (entries DEP_IMPORT_SPEC). ''_oid'' \<in> fst ` set (attr_map (snd (snd e)))"
    by (simp add: entries_def DEP_IMPORT_SPEC_def PUBLIC_OBJECT_MAP_def DEPARTMENT_MAP_def)
  from import_rows_has_oid [OF this] assms show ?thesis
    by (auto simp add: import_data_def)
qed

text \<open>
  Claim C3.  When the gating predicate of a \<^verbatim>\<open>RecordSpec\<close> is false on a row, its
  evaluation produces no record and leaves the state as it was, so none of its dynamic
  resolvers is invoked.  Over a whole row: the records produced are exactly those of the
  entries whose predicate is true, and the counter of every \<^verbatim>\<open>OidFactory\<close> that only
  this \<^verbatim>\<open>RecordSpec\<close> references is unchanged, whether the row succeeds or fails.
\<close>

theorem gated_off_consumes_nothing:
  assumes "gate rs r = Inr False"
    and "process_entries es id_col r xr st = (x, st')"
    and "\<forall>e\<in>set es. a \<in> set (attr_refs (attr_map (snd (snd e)))) \<longrightarrow> snd (snd e) = rs"
  shows "eval_record_spec t rs id_col r xr st = (Inr None, st)
    \<and> factories st' a = factories st a
    \<and> (\<forall>out xr'. x = Inr (out, xr') \<longrightarrow> map fst out = map entry_key (filter (passes r) es))"
proof -
  from assms(1,3) have "\<forall>e\<in>set es. a \<in> set (attr_refs (attr_map (snd (snd e)))) \<longrightarrow> gate (snd (snd e)) r = Inr False"
    by auto
  from process_entries_frame [OF assms(2) this] have "factories st' a = factories st a" .
  moreover have "\<forall>out xr'. x = Inr (out, xr') \<longrightarrow> map fst out = map entry_key (filter (passes r) es)"
    using assms(2) process_entries_keys by blast
  ultimately show ?thesis using assms(1) by (simp add: eval_record_spec_closed)
qed

theorem gated_off_consumes_nothing_witness:
  "gate \<lparr>attr_map = PHONE_MAP, condition = Some has_phone\<rparr> example_emp_nophone = Inr False
   \<and> eval_record_spec ''phones'' \<lparr>attr_map = PHONE_MAP, condition = Some has_phone\<rparr> None
        example_emp_nophone [] example_store = (Inr None, example_store)
   \<and> factories (snd (process_entries (entries EMP_IMPORT_SPEC) None example_emp_nophone [] example_store)) 3
       = factories example_store 3
   \<and> map_sum id (\<lambda>p. map fst (fst p))
        (fst (process_entries (entries EMP_IMPORT_SPEC) None example_emp_nophone [] example_store))
       = Inr [(''publicobject'', ''emp''), (''employees'', ''sole'')]"
proof -
  let ?rs = "\<lparr>attr_map = PHONE_MAP, condition = Some has_phone\<rparr>"
  let ?run = "process_entries (entries EMP_IMPORT_SPEC) None example_emp_nophone [] example_store"
  have g: "gate ?rs example_emp_nophone = Inr False"
    by (simp add: gate_def has_phone_def getitem_def example_emp_nophone_def)
  have run: "?run = (fst ?run, snd ?run)" by simp
  have only: "\<forall>e\<in>set (entries EMP_IMPORT_SPEC). 3 \<in> set (attr_refs (attr_map (snd (snd e)))) \<longrightarrow> snd (snd e) = ?rs"
    by (simp add: entries_def EMP_IMPORT_SPEC_def attr_refs_def PUBLIC_OBJECT_MAP_def EMPLOYEE_MAP_def PHONE_MAP_def)
  have keys: "map_sum id (\<lambda>p. map fst (fst p)) (fst ?run)
       = Inr [(''publicobject'', ''emp''), (''employees'', ''sole'')]"
    by code_simp
  from gated_off_consumes_nothing [OF g run only, of "''phones''"] g keys show ?thesis by simp
qed

lemma lookup_register_same:
  "lookup_xref (register xr (t, ro) rec) t ro a = getitem (attributes rec) a"
proof -
  have "filter (\<lambda>e. fst e = (t, ro)) (filter (\<lambda>e. fst e \<noteq> (t, ro)) xr) = []"
    by (induction xr) auto
  then show ?thesis by (simp add: lookup_xref_def register_def)
qed

lemma lookup_register_other:
  "(t', ro') \<noteq> (t, ro) \<Longrightarrow> lookup_xref (register xr (t, ro) rec) t' ro' a = lookup_xref xr t' ro' a"
proof -
  assume ne: "(t', ro') \<noteq> (t, ro)"
  then have "filter (\<lambda>e. fst e = (t', ro')) (filter (\<lambda>e. fst e \<noteq> (t, ro)) xr) = filter (\<lambda>e. fst e = (t', ro')) xr"
    by (induction xr) auto
  with ne show ?thesis by (auto simp add: lookup_xref_def register_def)
qed

lemma emp_row_succeeds:
  assumes "map_of r ''First'' = Some f" and "map_of r ''Last'' = Some l"
    and "map_of r ''Department'' = Some d" and "map_of r ''Phone'' = Some p"
    and "department_oid (departments st) d = Inr v"
  shows "\<exists>out xr'. fst (process_entries (entries EMP_IMPORT_SPEC) None r xr st) = Inr (out, xr')"
  using assms
  by (simp add: entries_def EMP_IMPORT_SPEC_def eval_record_spec_def gate_def has_phone_def
      PUBLIC_OBJECT_MAP_def EMPLOYEE_MAP_def PHONE_MAP_def getitem_def OidFactory_call_def Let_def
      lookup_register_same lookup_register_other make_name_def quote_def)

lemma dep_row_succeeds:
  assumes "map_of r ''Department'' = Some d" and "map_of r ''Floor'' = Some fl"
  shows "\<exists>out xr'. fst (process_entries (entries DEP_IMPORT_SPEC) (Some ''Department'') r xr st) = Inr (out, xr')"
  using assms
  by (simp add: entries_def DEP_IMPORT_SPEC_def eval_record_spec_def gate_def
      PUBLIC_OBJECT_MAP_def DEPARTMENT_MAP_def getitem_def OidFactory_call_def Let_def
      lookup_register_same lookup_register_other quote_def)

lemma emp_passes:
  "map entry_key (filter (passes r) (entries EMP_IMPORT_SPEC)) =
     (if has_phone r = Inr True
      then [(''publicobject'', ''emp''), (''publicobject'', ''phone''), (''employees'', ''sole''), (''phones'', ''sole'')]
      else [(''publicobject'', ''emp''), (''employees'', ''sole'')])"
  by (simp add: entries_def EMP_IMPORT_SPEC_def passes_def gate_def entry_key_def)

text \<open>
  Claim C5.  For an employee row with a \<^verbatim>\<open>Phone\<close> column, \<^verbatim>\<open>has_phone\<close> is true exactly
  when the value is not \<^verbatim>\<open>"-"\<close>.  A row with \<^verbatim>\<open>"-"\<close> that is processed produces the
  \<^verbatim>\<open>emp\<close> record of \<^verbatim>\<open>publicobject\<close> and the \<^verbatim>\<open>employees\<close> record only; a row with any
  other value produces also the \<^verbatim>\<open>phone\<close> record of \<^verbatim>\<open>publicobject\<close> and the \<^verbatim>\<open>phones\<close>
  record, each record in the table of its entry.  A row is processed whenever it holds
  the four columns and its department is found in the list \<^verbatim>\<open>departments\<close>.
\<close>

theorem has_phone_gating:
  "(map_of r ''Phone'' = Some p \<longrightarrow> has_phone r = Inr (p \<noteq> ''-''))
   \<and> (map_of r ''Phone'' = Some p \<and>
      fst (process_entries (entries EMP_IMPORT_SPEC) None r xr st) = Inr (out, xr') \<longrightarrow>
        map (\<lambda>kr. fst kr) out =
          (if p = ''-''
           then [(''publicobject'', ''emp''), (''employees'', ''sole'')]
           else [(''publicobject'', ''emp''), (''publicobject'', ''phone''),
                 (''employees'', ''sole''), (''phones'', ''sole'')])
        \<and> map (\<lambda>kr. table_name (snd kr)) out = map (\<lambda>kr. fst (fst kr)) out)
   \<and> (map_of r ''First'' = Some f \<and> map_of r ''Last'' = Some l \<and> map_of r ''Department'' = Some d \<and>
      map_of r ''Phone'' = Some p \<and> department_oid (departments st) d = Inr v \<longrightarrow>
        (\<exists>out xr'. fst (process_entries (entries EMP_IMPORT_SPEC) None r xr st) = Inr (out, xr')))"
proof -
  have a: "has_phone r = Inr (p \<noteq> ''-'')" if "map_of r ''Phone'' = Some p"
    using that by (simp add: has_phone_def getitem_def)
  have b: "map fst out =
          (if p = ''-''
           then [(''publicobject'', ''emp''), (''employees'', ''sole'')]
           else [(''publicobject'', ''emp''), (''publicobject'', ''phone''),
                 (''employees'', ''sole''), (''phones'', ''sole'')])
        \<and> map (\<lambda>kr. table_name (snd kr)) out = map (\<lambda>kr. fst (fst kr)) out"
    if p: "map_of r ''Phone'' = Some p"
      and run: "fst (process_entries (entries EMP_IMPORT_SPEC) None r xr st) = Inr (out, xr')"
  proof -
    obtain st' where pe: "process_entries (entries EMP_IMPORT_SPEC) None r xr st = (Inr (out, xr'), st')"
      using run by (cases "process_entries (entries EMP_IMPORT_SPEC) None r xr st") simp
    from process_entries_keys [OF pe] a [OF p] process_entries_tables [OF pe]
    show ?thesis by (simp add: emp_passes)
  qed
  have c: "\<exists>out xr'. fst (process_entries (entries EMP_IMPORT_SPEC) None r xr st) = Inr (out, xr')"
    if "map_of r ''First'' = Some f" and "map_of r ''Last'' = Some l" and "map_of r ''Department'' = Some d"
      and "map_of r ''Phone'' = Some p" and "department_oid (departments st) d = Inr v"
    using that by (rule emp_row_succeeds)
  from a b have ab: "(map_of r ''Phone'' = Some p \<longrightarrow> has_phone r = Inr (p \<noteq> ''-''))
   \<and> (map_of r ''Phone'' = Some p \<and>
      fst (process_entries (entries EMP_IMPORT_SPEC) None r xr st) = Inr (out, xr') \<longrightarrow>
        map (\<lambda>kr. fst kr) out =
          (if p = ''-''
           then [(''publicobject'', ''emp''), (''employees'', ''sole'')]
           else [(''publicobject'', ''emp''), (''publicobject'', ''phone''),
                 (''employees'', ''sole''), (''phones'', ''sole'')])
        \<and> map (\<lambda>kr. table_name (snd kr)) out = map (\<lambda>kr. fst (fst kr)) out)"
    by (simp cong: map_cong)
  from c have "map_of r ''First'' = Some f \<and> map_of r ''Last'' = Some l \<and> map_of r ''Department'' = Some d \<and>
      map_of r ''Phone'' = Some p \<and> department_oid (departments st) d = Inr v \<longrightarrow>
        (\<exists>out xr'. fst (process_entries (entries EMP_IMPORT_SPEC) None r xr st) = Inr (out, xr'))"
    by blast
  with ab show ?thesis by blast
qed

theorem has_phone_gating_witness:
  "map_of example_emp_nophone ''Phone'' = Some ''-''
   \<and> has_phone example_emp_nophone = Inr False
   \<and> map_sum id (\<lambda>p. map fst (fst p))
        (fst (process_entries (entries EMP_IMPORT_SPEC) None example_emp_nophone [] example_store))
       = Inr [(''publicobject'', ''emp''), (''employees'', ''sole'')]
   \<and> map_of example_emp_phone ''Phone'' = Some ''555-1234''
   \<and> has_phone example_emp_phone = Inr True
   \<and> map_sum id (\<lambda>p. map fst (fst p))
        (fst (process_entries (entries EMP_IMPORT_SPEC) None example_emp_phone [] example_store))
       = Inr [(''publicobject'', ''emp''), (''publicobject'', ''phone''),
              (''employees'', ''sole''), (''phones'', ''sole'')]"
proof -
  let ?no = "fst (process_entries (entries EMP_IMPORT_SPEC) None example_emp_nophone [] example_store)"
  let ?yes = "fst (process_entries (entries EMP_IMPORT_SPEC) None example_emp_phone [] example_store)"
  have p1: "map_of example_emp_nophone ''Phone'' = Some ''-''"
    by (simp add: example_emp_nophone_def)
  have p2: "map_of example_emp_phone ''Phone'' = Some ''555-1234''"
    by (simp add: example_emp_phone_def)
  have "\<not> isl ?no" by code_simp
  then obtain out1 xr1 where r1: "?no = Inr (out1, xr1)" by (cases ?no) auto
  have "\<not> isl ?yes" by code_simp
  then obtain out2 xr2 where r2: "?yes = Inr (out2, xr2)" by (cases ?yes) auto
  from has_phone_gating [of example_emp_nophone "''-''" "[]" example_store out1 xr1]
    has_phone_gating [of example_emp_phone "''555-1234''" "[]" example_store out2 xr2]
    p1 p2 r1 r2
  show ?thesis by simp
qed

text \<open>
  The calls are what the importer runs: a dynamic resolver is a call of its
  \<^verbatim>\<open>OidFactory\<close>, and the conversions of the attribute maps give the results of the
  calls of \<^verbatim>\<open>quote\<close>, \<^verbatim>\<open>make_name\<close> and \<^verbatim>\<open>department_oid\<close>.
\<close>

lemma resolve_through_calls:
  "resolve xr r (DynamicValue a) st = call_OidFactory a r st"
  "resolve xr r (ColumnValue c (Some (\<lambda>st. quote))) st =
     (case getitem r c of Inl e \<Rightarrow> (Inl e, st) | Inr v \<Rightarrow> call_quote v st)"
  "resolve xr r (ColumnValue c (Some (\<lambda>st. department_oid (departments st)))) st =
     (case getitem r c of Inl e \<Rightarrow> (Inl e, st) | Inr v \<Rightarrow> call_department_oid v st)"
  "resolve xr r (MultiColumnValue cs (\<lambda>st. make_name)) st =
     (case sub_mapping r cs of Inl e \<Rightarrow> (Inl e, st) | Inr vs \<Rightarrow> call_make_name vs st)"
  by (simp_all add: call_OidFactory_def call_quote_def call_department_oid_def call_make_name_def
      split: sum.splits)

text \<open>
  Not every callable of the module leaves the state as it was or repeats its result: a
  call of an \<^verbatim>\<open>OidFactory\<close> changes the state, two calls in a row with the same row
  return different texts, and \<^verbatim>\<open>department_oid\<close> answers differently when the list
  \<^verbatim>\<open>departments\<close> differs.
\<close>

lemma call_OidFactory_changes_state: "snd (call_OidFactory a r st) \<noteq> st"
proof
  assume "snd (call_OidFactory a r st) = st"
  then have "oid (factories (snd (call_OidFactory a r st)) a) = oid (factories st a)" by simp
  then show False by (simp add: call_OidFactory_def OidFactory_call_def Let_def)
qed

lemma call_OidFactory_not_repeatable:
  "fst (call_OidFactory 0 r init_store) = Inr ''1''
   \<and> fst (call_OidFactory 0 r (snd (call_OidFactory 0 r init_store))) = Inr ''2''"
  by (simp add: call_OidFactory_def OidFactory_call_def Let_def init_store_def OidFactory_init_def
      str_int_def str_nat.simps digit_char_def)

lemma call_department_oid_reads_departments:
  "fst (call_department_oid ''Eng'' example_store) = Inr ''2''
   \<and> fst (call_department_oid ''Eng'' init_store) = Inl StopIteration"
  by (simp add: call_department_oid_def example_store_def example_departments_def init_store_def
      getitem_def)



section \<open>Properties of the two passes\<close>

text \<open>
  Claim C1, as the script behaves.  The departments import over the two example rows, with
  the row id taken from \<^verbatim>\<open>Department\<close>, produces four records in this order: a
  \<^verbatim>\<open>publicobject\<close> record with \<^verbatim>\<open>_oid\<close> 1, the \<^verbatim>\<open>departments\<close> record of Sales, a
  \<^verbatim>\<open>publicobject\<close> record with \<^verbatim>\<open>_oid\<close> 2, the \<^verbatim>\<open>departments\<close> record of Eng.  The
  \<^verbatim>\<open>departments\<close> records take their \<^verbatim>\<open>_oid\<close> from the \<^verbatim>\<open>OidFactory\<close> of
  \<open>DEPARTMENT_MAP\<close>, which is not the one of \<open>PUBLIC_OBJECT_MAP\<close>: they are 1 and 2.
  Their \<^verbatim>\<open>_publicobj_oid\<close> are 1 and 2, with the names and floors in single quotes.
\<close>

theorem dep_import_example:
  "fst (import_data DEP_IMPORT_SPEC (Some ''Department'') example_dep_rows init_store) =
     Inr [\<lparr>table_name = ''publicobject'',
           attributes = [(''_oid'', ''1''), (''date'', ''now()'')],
           row_id = Some ''Sales''\<rparr>,
          \<lparr>table_name = ''departments'',
           attributes = [(''_oid'', ''1''), (''_publicobj_oid'', ''1''),
                         (''name'', [CHR 0x27] @ ''Sales'' @ [CHR 0x27]),
                         (''floor'', [CHR 0x27] @ ''3'' @ [CHR 0x27])],
           row_id = Some ''Sales''\<rparr>,
          \<lparr>table_name = ''publicobject'',
           attributes = [(''_oid'', ''2''), (''date'', ''now()'')],
           row_id = Some ''Eng''\<rparr>,
          \<lparr>table_name = ''departments'',
           attributes = [(''_oid'', ''2''), (''_publicobj_oid'', ''2''),
                         (''name'', [CHR 0x27] @ ''Eng'' @ [CHR 0x27]),
                         (''floor'', [CHR 0x27] @ ''4'' @ [CHR 0x27])],
           row_id = Some ''Eng''\<rparr>]"
  by code_simp

text \<open>
  Claim C1, as it is written, fails on the example: the \<^verbatim>\<open>_oid\<close> values of the two
  \<^verbatim>\<open>departments\<close> records are not 3 and 4.
\<close>

theorem dep_import_example_counterexample:
  "map_sum id (table_oids ''departments'')
     (fst (import_data DEP_IMPORT_SPEC (Some ''Department'') example_dep_rows init_store))
   = Inr [Some ''1'', Some ''2'']
   \<and> map_sum id (table_oids ''departments'')
     (fst (import_data DEP_IMPORT_SPEC (Some ''Department'') example_dep_rows init_store))
   \<noteq> Inr [Some ''3'', Some ''4'']"
  by code_simp

lemma first_loop_eq:
  "first_loop stmt recs sql st =
     (sql @ concat (map stmt recs),
      st\<lparr>departments := departments st @ filter (\<lambda>rec. table_name rec = ''departments'') recs\<rparr>)"
  by (induction recs arbitrary: sql st) simp_all

lemma second_loop_eq: "second_loop stmt recs sql = sql @ concat (map stmt recs)"
  by (induction recs arbitrary: sql) simp_all

text \<open>
  Claim C9.  Whatever importer and statement renderer \<^verbatim>\<open>main\<close> is run with: the
  departments pass runs first; when it fails, \<^verbatim>\<open>main\<close> fails and the employees pass
  does not run; otherwise the employees pass starts in the state in which every record
  of the table \<^verbatim>\<open>departments\<close> of the first pass has been appended to the list
  \<^verbatim>\<open>departments\<close>, and the SQL text is the statements of the first pass followed by
  those of the second.  The attribute maps of the departments pass are
  \<open>PUBLIC_OBJECT_MAP\<close> and \<open>DEPARTMENT_MAP\<close>, and none of their conversions reads the
  state: \<^verbatim>\<open>department_oid\<close> is only reached from the employees pass.
\<close>

theorem main_departments_first:
  "main_with imp stmt dep_rows emp_rows st =
     (case imp DEP_IMPORT_SPEC (Some ''Department'') dep_rows st of
        (Inl e, st1) \<Rightarrow> (Inl e, st1)
      | (Inr recs1, st1) \<Rightarrow>
          (case imp EMP_IMPORT_SPEC None emp_rows
                  (st1\<lparr>departments := departments st1 @ filter (\<lambda>rec. table_name rec = ''departments'') recs1\<rparr>) of
             (Inl e, st3) \<Rightarrow> (Inl e, st3)
           | (Inr recs2, st3) \<Rightarrow> (Inr (concat (map stmt recs1) @ concat (map stmt recs2)), st3)))
   \<and> map (\<lambda>e. attr_map (snd (snd e))) (entries DEP_IMPORT_SPEC) = [PUBLIC_OBJECT_MAP, DEPARTMENT_MAP]
   \<and> list_all cache_independent (map snd (PUBLIC_OBJECT_MAP @ DEPARTMENT_MAP))"
proof -
  have "map (\<lambda>e. attr_map (snd (snd e))) (entries DEP_IMPORT_SPEC) = [PUBLIC_OBJECT_MAP, DEPARTMENT_MAP]"
    by (simp add: entries_def DEP_IMPORT_SPEC_def)
  moreover have "list_all cache_independent (map snd (PUBLIC_OBJECT_MAP @ DEPARTMENT_MAP))"
    by (simp add: PUBLIC_OBJECT_MAP_def DEPARTMENT_MAP_def)
  ultimately show ?thesis
    by (simp add: main_with_def first_loop_eq second_loop_eq split: prod.splits sum.splits)
qed

text \<open>The whole program on the example files: ten statements, the departments pass first.\<close>

lemma main_example:
  "fst (main example_dep_rows [example_emp_nophone, example_emp_phone] init_store) =
     Inr (''INSERT INTO publicobject (_oid, date) VALUES (1, now());'' @ [CHR 0x0A]
        @ ''INSERT INTO departments (_oid, _publicobj_oid, name, floor) VALUES (1, 1, '' @ [CHR 0x27] @ ''Sales'' @ [CHR 0x27] @ '', '' @ [CHR 0x27] @ ''3'' @ [CHR 0x27] @ '');'' @ [CHR 0x0A]
        @ ''INSERT INTO publicobject (_oid, date) VALUES (2, now());'' @ [CHR 0x0A]
        @ ''INSERT INTO departments (_oid, _publicobj_oid, name, floor) VALUES (2, 2, '' @ [CHR 0x27] @ ''Eng'' @ [CHR 0x27] @ '', '' @ [CHR 0x27] @ ''4'' @ [CHR 0x27] @ '');'' @ [CHR 0x0A]
        @ ''INSERT INTO publicobject (_oid, date) VALUES (3, now());'' @ [CHR 0x0A]
        @ ''INSERT INTO employees (_oid, _publicobj_oid, department_oid, name) VALUES (1, 3, 1, '' @ [CHR 0x27] @ ''Jane Doe'' @ [CHR 0x27] @ '');'' @ [CHR 0x0A]
        @ ''INSERT INTO publicobject (_oid, date) VALUES (4, now());'' @ [CHR 0x0A]
        @ ''INSERT INTO publicobject (_oid, date) VALUES (5, now());'' @ [CHR 0x0A]
        @ ''INSERT INTO employees (_oid, _publicobj_oid, department_oid, name) VALUES (2, 4, 2, '' @ [CHR 0x27] @ ''Al Roe'' @ [CHR 0x27] @ '');'' @ [CHR 0x0A]
        @ ''INSERT INTO phones (_oid, _publicobj_oid, _employee_oid, number) VALUES (1, 5, 2, '' @ [CHR 0x27] @ ''555-1234'' @ [CHR 0x27] @ '');'' @ [CHR 0x0A])"
  by code_simp

lemma str_nat_not_Nil [simp]: "str_nat n \<noteq> []" "[] \<noteq> str_nat n"
  by (subst str_nat.simps, simp)+

lemma digit_char_inj: "n < 10 \<Longrightarrow> m < 10 \<Longrightarrow> digit_char n = digit_char m \<Longrightarrow> n = m"
proof -
  have ten: "k < 10 \<longleftrightarrow> k = 0 \<or> k = 1 \<or> k = 2 \<or> k = 3 \<or> k = 4 \<or> k = 5 \<or> k = 6 \<or> k = 7 \<or> k = 8 \<or> k = 9"
    for k :: nat by arith
  show "n < 10 \<Longrightarrow> m < 10 \<Longrightarrow> digit_char n = digit_char m \<Longrightarrow> n = m"
    unfolding ten by (elim disjE) (simp_all add: digit_char_def)
qed

lemma str_nat_inj: "str_nat n = str_nat m \<Longrightarrow> n = m"
proof (induction n arbitrary: m rule: str_nat.induct)
  case (1 n)
  show ?case
  proof (cases "n < 10")
    case small: True
    show ?thesis
    proof (cases "m < 10")
      case True
      with small "1.prems" show ?thesis
        by (simp add: str_nat.simps [of n] str_nat.simps [of m] digit_char_inj)
    next
      case False
      with small "1.prems" show ?thesis
        by (simp add: str_nat.simps [of n] str_nat.simps [of m])
    qed
  next
    case big: False
    show ?thesis
    proof (cases "m < 10")
      case True
      with big "1.prems" show ?thesis
        by (simp add: str_nat.simps [of n] str_nat.simps [of m])
    next
      case False
      with big "1.prems" have eq: "str_nat (n div 10) = str_nat (m div 10)"
        and d: "digit_char (n mod 10) = digit_char (m mod 10)"
        by (simp_all add: str_nat.simps [of n] str_nat.simps [of m])
      from "1.IH" [OF big eq] have "n div 10 = m div 10" .
      moreover from d have "n mod 10 = m mod 10" by (simp add: digit_char_inj)
      ultimately show ?thesis by (metis div_mult_mod_eq)
    qed
  qed
qed

lemma str_int_inj_on: "inj_on str_int {0..}"
  by (rule inj_onI) (simp add: str_int_def, drule str_nat_inj, simp)

lemma table_oids_append [simp]: "table_oids t (xs @ ys) = table_oids t xs @ table_oids t ys"
  by (simp add: table_oids_def)

lemma table_oids_Cons:
  "table_oids t (rec # recs) =
     (if table_name rec = t then map_of (attributes rec) ''_oid'' # table_oids t recs else table_oids t recs)"
  by (simp add: table_oids_def)

lemma table_oids_Nil [simp]: "table_oids t [] = []"
  by (simp add: table_oids_def)

lemma length_table_oids: "length (table_oids t recs) = length (filter (\<lambda>rec. table_name rec = t) recs)"
  by (simp add: table_oids_def)

lemma eval_public_object:
  assumes "attr_map rs = PUBLIC_OBJECT_MAP"
    and "eval_record_spec t rs id_col r xr st = (Inr (Some rec), st')"
  shows "map_of (attributes rec) ''_oid'' = Some (str_int (oid (factories st 0) + 1))"
    and "oid (factories st' 0) = oid (factories st 0) + 1"
  using assms
  by (auto simp add: eval_record_spec_def PUBLIC_OBJECT_MAP_def OidFactory_call_def Let_def
      split: sum.splits bool.splits option.splits)

lemma upto_step: "i < j \<Longrightarrow> [i + 1 .. j] = (i + 1) # [i + 1 + 1 .. j]" for i j :: int
  by (simp add: upto_rec1)

lemma upto_join: "i \<le> j \<Longrightarrow> j \<le> k \<Longrightarrow> [i + 1 .. j] @ [j + 1 .. k] = [i + 1 .. k]" for i j k :: int
  by (cases "i = j") (simp_all add: upto_split2 [of "i + 1" j k])

lemma process_entries_public:
  "shares_public_counter es \<Longrightarrow>
   process_entries es id_col r xr st = (Inr (out, xr'), st') \<Longrightarrow>
   table_oids ''publicobject'' (map snd out) =
     map (\<lambda>i. Some (str_int i)) [oid (factories st 0) + 1 .. oid (factories st' 0)]
   \<and> oid (factories st 0) \<le> oid (factories st' 0)"
proof (induction es arbitrary: xr st out xr' st')
  case Nil
  then show ?case by simp
next
  case (Cons e es)
  obtain t ro rs where e: "e = (t, ro, rs)" by (cases e)
  from Cons.prems(1) have sh: "shares_public_counter es"
    by (simp add: shares_public_counter_def)
  obtain y st1 where ev: "eval_record_spec t rs id_col r xr st = (y, st1)"
    by (cases "eval_record_spec t rs id_col r xr st")
  show ?case
  proof (cases y)
    case (Inl err)
    with Cons.prems(2) e ev show ?thesis by simp
  next
    case (Inr opt)
    show ?thesis
    proof (cases opt)
      case None
      with ev Inr have "st1 = st" by (simp add: eval_record_spec_None)
      with Cons.prems(2) e ev Inr None
      have "process_entries es id_col r xr st = (Inr (out, xr'), st')" by simp
      from Cons.IH [OF sh this] show ?thesis .
    next
      case (Some rec)
      from ev Inr Some have ev': "eval_record_spec t rs id_col r xr st = (Inr (Some rec), st1)" by simp
      then have tn: "table_name rec = t" by (simp add: eval_record_spec_Some)
      obtain z st2 where pe: "process_entries es id_col r (register xr (t, ro) rec) st1 = (z, st2)"
        by (cases "process_entries es id_col r (register xr (t, ro) rec) st1")
      with Cons.prems(2) e ev Inr Some obtain out' where
        z: "z = Inr (out', xr')" and out: "out = ((t, ro), rec) # out'" and st': "st' = st2"
        by (auto split: sum.splits)
      from pe z st' have "process_entries es id_col r (register xr (t, ro) rec) st1 = (Inr (out', xr'), st')"
        by simp
      from Cons.IH [OF sh this]
      have ih: "table_oids ''publicobject'' (map snd out') =
                  map (\<lambda>i. Some (str_int i)) [oid (factories st1 0) + 1 .. oid (factories st' 0)]"
        and mono: "oid (factories st1 0) \<le> oid (factories st' 0)" by simp_all
      show ?thesis
      proof (cases "t = ''publicobject''")
        case True
        with Cons.prems(1) e have am: "attr_map rs = PUBLIC_OBJECT_MAP"
          by (simp add: shares_public_counter_def)
        note val = eval_public_object [OF am ev']
        from val(2) mono have lt: "oid (factories st 0) < oid (factories st' 0)" by simp
        from ih val True tn out upto_step [OF lt] mono show ?thesis
          by (simp add: table_oids_Cons)
      next
        case False
        with Cons.prems(1) e have "0 \<notin> set (attr_refs (attr_map rs))"
          by (simp add: shares_public_counter_def)
        with eval_record_spec_frame(2) [OF ev', of 0] have "factories st1 0 = factories st 0" by simp
        with ih mono False tn out show ?thesis by (simp add: table_oids_Cons)
      qed
    qed
  qed
qed

lemma import_rows_public:
  "shares_public_counter (entries spec) \<Longrightarrow>
   import_rows spec id_col rows xr st = (Inr recs, st') \<Longrightarrow>
   table_oids ''publicobject'' recs =
     map (\<lambda>i. Some (str_int i)) [oid (factories st 0) + 1 .. oid (factories st' 0)]
   \<and> oid (factories st 0) \<le> oid (factories st' 0)"
proof (induction rows arbitrary: xr st recs st')
  case Nil
  then show ?case by simp
next
  case (Cons r rows)
  obtain y st1 where pe: "process_entries (entries spec) id_col r xr st = (y, st1)"
    by (cases "process_entries (entries spec) id_col r xr st")
  show ?case
  proof (cases y)
    case (Inl err)
    with Cons.prems(2) pe show ?thesis by simp
  next
    case (Inr p)
    obtain out xr1 where p: "p = (out, xr1)" by (cases p)
    obtain z st2 where ir: "import_rows spec id_col rows xr1 st1 = (z, st2)"
      by (cases "import_rows spec id_col rows xr1 st1")
    with Cons.prems(2) pe Inr p obtain recs' where
      z: "z = Inr recs'" and recs: "recs = map snd out @ recs'" and st': "st' = st2"
      by (auto split: sum.splits)
    from pe Inr p have "process_entries (entries spec) id_col r xr st = (Inr (out, xr1), st1)" by simp
    from process_entries_public [OF Cons.prems(1) this]
    have a: "table_oids ''publicobject'' (map snd out) =
               map (\<lambda>i. Some (str_int i)) [oid (factories st 0) + 1 .. oid (factories st1 0)]"
      and m1: "oid (factories st 0) \<le> oid (factories st1 0)" by simp_all
    from ir z st' have "import_rows spec id_col rows xr1 st1 = (Inr recs', st')" by simp
    from Cons.IH [OF Cons.prems(1) this]
    have b: "table_oids ''publicobject'' recs' =
               map (\<lambda>i. Some (str_int i)) [oid (factories st1 0) + 1 .. oid (factories st' 0)]"
      and m2: "oid (factories st1 0) \<le> oid (factories st' 0)" by simp_all
    from a b recs upto_join [OF m1 m2] m1 m2 show ?thesis
      by (simp flip: map_append)
  qed
qed

lemma shares_dep: "shares_public_counter (entries DEP_IMPORT_SPEC)"
  by (simp add: shares_public_counter_def entries_def DEP_IMPORT_SPEC_def DEPARTMENT_MAP_def attr_refs_def)

lemma shares_emp: "shares_public_counter (entries EMP_IMPORT_SPEC)"
  by (simp add: shares_public_counter_def entries_def EMP_IMPORT_SPEC_def EMPLOYEE_MAP_def PHONE_MAP_def attr_refs_def)

lemma distinct_str_ints: "0 \<le> i \<Longrightarrow> distinct (map (\<lambda>i. Some (str_int i)) [i .. j])"
proof -
  assume "0 \<le> i"
  then have "inj_on str_int (set [i .. j])"
    by (intro inj_on_subset [OF str_int_inj_on]) auto
  then have "inj_on (\<lambda>i. Some (str_int i)) (set [i .. j])"
    by (auto simp add: inj_on_def)
  then show ?thesis by (simp add: distinct_map)
qed

text \<open>
  Claim C7.  The three entries for the table \<^verbatim>\<open>publicobject\<close> (one of the departments
  pass, two of the employees pass) use the one map \<open>PUBLIC_OBJECT_MAP\<close> and so the one
  \<^verbatim>\<open>OidFactory\<close> at address 0.  When \<^verbatim>\<open>main\<close> starts with that counter fresh and both
  passes succeed, the \<^verbatim>\<open>_oid\<close> values of the \<^verbatim>\<open>publicobject\<close> records of the
  departments pass are 1, ..., m, those of the employees pass continue with m + 1, ..., n,
  so that over both passes they are 1, ..., n in the order of emission, and no value
  occurs twice.
\<close>

theorem publicobject_oids_one_sequence:
  assumes "factories st 0 = OidFactory_init"
    and "import_data DEP_IMPORT_SPEC (Some ''Department'') dep_rows st = (Inr recs1, st1)"
    and "import_data EMP_IMPORT_SPEC None emp_rows
           (st1\<lparr>departments := departments st1 @ filter (\<lambda>rec. table_name rec = ''departments'') recs1\<rparr>)
         = (Inr recs2, st2)"
  shows "map (\<lambda>e. attr_map (snd (snd e)))
           (filter (\<lambda>e. fst e = ''publicobject'') (entries DEP_IMPORT_SPEC @ entries EMP_IMPORT_SPEC))
         = [PUBLIC_OBJECT_MAP, PUBLIC_OBJECT_MAP, PUBLIC_OBJECT_MAP]
    \<and> table_oids ''publicobject'' recs1 = map (\<lambda>i. Some (str_int i)) [1 .. oid (factories st1 0)]
    \<and> table_oids ''publicobject'' recs2 =
        map (\<lambda>i. Some (str_int i)) [oid (factories st1 0) + 1 .. oid (factories st2 0)]
    \<and> table_oids ''publicobject'' (recs1 @ recs2) =
        map (\<lambda>i. Some (str_int i))
          [1 .. int (length (filter (\<lambda>rec. table_name rec = ''publicobject'') (recs1 @ recs2)))]
    \<and> distinct (table_oids ''publicobject'' (recs1 @ recs2))"
proof -
  let ?st1' = "st1\<lparr>departments := departments st1 @ filter (\<lambda>rec. table_name rec = ''departments'') recs1\<rparr>"
  have struct: "map (\<lambda>e. attr_map (snd (snd e)))
           (filter (\<lambda>e. fst e = ''publicobject'') (entries DEP_IMPORT_SPEC @ entries EMP_IMPORT_SPEC))
         = [PUBLIC_OBJECT_MAP, PUBLIC_OBJECT_MAP, PUBLIC_OBJECT_MAP]"
    by (simp add: entries_def DEP_IMPORT_SPEC_def EMP_IMPORT_SPEC_def)
  from assms(2) have "import_rows DEP_IMPORT_SPEC (Some ''Department'') dep_rows [] st = (Inr recs1, st1)"
    by (simp add: import_data_def)
  from import_rows_public [OF shares_dep this] assms(1)
  have a: "table_oids ''publicobject'' recs1 = map (\<lambda>i. Some (str_int i)) [1 .. oid (factories st1 0)]"
    and m1: "0 \<le> oid (factories st1 0)" by (simp_all add: OidFactory_init_def)
  from assms(3) have "import_rows EMP_IMPORT_SPEC None emp_rows [] ?st1' = (Inr recs2, st2)"
    by (simp add: import_data_def)
  from import_rows_public [OF shares_emp this]
  have b: "table_oids ''publicobject'' recs2 =
        map (\<lambda>i. Some (str_int i)) [oid (factories st1 0) + 1 .. oid (factories st2 0)]"
    and m2: "oid (factories st1 0) \<le> oid (factories st2 0)" by simp_all
  from a b upto_join [OF m1 m2]
  have all: "table_oids ''publicobject'' (recs1 @ recs2) = map (\<lambda>i. Some (str_int i)) [1 .. oid (factories st2 0)]"
    by (simp flip: map_append)
  from arg_cong [OF all, of length] m1 m2
  have len: "int (length (filter (\<lambda>rec. table_name rec = ''publicobject'') (recs1 @ recs2))) = oid (factories st2 0)"
    by (simp add: length_table_oids)
  have "distinct (table_oids ''publicobject'' (recs1 @ recs2))"
    unfolding all by (rule distinct_str_ints) simp
  with struct a b all len show ?thesis by simp
qed

theorem publicobject_oids_one_sequence_witness:
  "factories init_store 0 = OidFactory_init
   \<and> \<not> isl (fst example_dep_run)
   \<and> \<not> isl (fst example_emp_run)
   \<and> table_oids ''publicobject'' (projr (fst example_dep_run)) = [Some ''1'', Some ''2'']
   \<and> table_oids ''publicobject'' (projr (fst example_emp_run)) = [Some ''3'', Some ''4'', Some ''5'']
   \<and> distinct (table_oids ''publicobject'' (projr (fst example_dep_run) @ projr (fst example_emp_run)))"
proof -
  have h: "factories init_store 0 = OidFactory_init" by (simp add: init_store_def)
  have n1: "\<not> isl (fst example_dep_run)" by code_simp
  have n2: "\<not> isl (fst example_emp_run)" by code_simp
  from n1 have "fst example_dep_run = Inr (projr (fst example_dep_run))" by simp
  then have r1: "example_dep_run = (Inr (projr (fst example_dep_run)), snd example_dep_run)"
    by (metis prod.collapse)
  from n2 have "fst example_emp_run = Inr (projr (fst example_emp_run))" by simp
  then have r2: "example_emp_run = (Inr (projr (fst example_emp_run)), snd example_emp_run)"
    by (metis prod.collapse)
  have v1: "table_oids ''publicobject'' (projr (fst example_dep_run)) = [Some ''1'', Some ''2'']"
    by code_simp
  have v2: "table_oids ''publicobject'' (projr (fst example_emp_run)) = [Some ''3'', Some ''4'', Some ''5'']"
    by code_simp
  note t = publicobject_oids_one_sequence [OF h r1 [unfolded example_dep_run_def]
      r2 [unfolded example_emp_run_def example_dep_run_def]]
  from t have "distinct (table_oids ''publicobject'' (projr (fst example_dep_run) @ projr (fst example_emp_run)))"
    unfolding example_emp_run_def example_dep_run_def by blast
  with h n1 n2 v1 v2 show ?thesis by blast
qed

end
